theory Spec2Isabelle
  imports Complex_Main
begin

section \<open>Data model of \<open>concensus.py\<close>\<close>

text \<open>
  The module has three classes: \<open>Agent\<close>, \<open>Network\<close> and \<open>ConsensusSimulation\<close>.
  Python floats are idealised as the reals (no rounding, no NaN, no infinities) in the
  model of the classes; the rounding that binary64 arithmetic adds to the update of one
  agent is modelled on its own (\<open>double_new_value\<close>). Python integers are \<open>int\<close>. A Python \<open>dict\<close> keeps insertion order and the code iterates over
  \<open>agents.items()\<close>, so a dict is an association list read with \<open>map_of\<close>, with pairwise
  distinct keys as an invariant (\<open>wf_network\<close> below). The field \<open>value\<close> of the source is
  called \<open>val\<close> here and \<open>_previous_values\<close> is \<open>previous_values\<close>.

  The source raises \<open>ValueError\<close> (duplicate agent id, invalid step size) and \<open>KeyError\<close>
  (unknown agent id). A method that mutates its object returns the outcome together with
  the state in effect when it returned or raised.
\<close>

datatype error = ValueError | KeyError

record Agent =
  agent_id :: int
  val :: real
  neighbors :: "int list"

record Network =
  agents :: "(int \<times> Agent) list"

record ConsensusSimulation =
  network :: Network
  step_size :: real
  current_round :: int
  previous_values :: "(int \<times> real) list"

subsection \<open>Dictionary operations\<close>

text \<open>\<open>d[k] = v\<close>: overwrite in place when the key is present, append otherwise.\<close>

fun dict_set :: "'k \<Rightarrow> 'v \<Rightarrow> ('k \<times> 'v) list \<Rightarrow> ('k \<times> 'v) list" where
  "dict_set k v [] = [(k, v)]"
| "dict_set k v (p # ps) = (if fst p = k then (k, v) # ps else p # dict_set k v ps)"

text \<open>\<open>k in d\<close>.\<close>

definition dict_mem :: "'k \<Rightarrow> ('k \<times> 'v) list \<Rightarrow> bool" where
  "dict_mem k d = (map_of d k \<noteq> None)"

text \<open>\<open>d.get(k, default)\<close>.\<close>

definition dict_get :: "('k \<times> 'v) list \<Rightarrow> 'k \<Rightarrow> 'v \<Rightarrow> 'v" where
  "dict_get d k dflt = (case map_of d k of None \<Rightarrow> dflt | Some v \<Rightarrow> v)"

text \<open>
  The builtins \<open>sum\<close>, \<open>min\<close> and \<open>max\<close> on a list, read left to right. On an empty
  list \<open>min\<close> and \<open>max\<close> raise in Python; \<open>has_converged\<close>, their only caller, returns
  before it reaches them when the list is empty, so their value on \<open>[]\<close> is never used.
\<close>

definition py_sum :: "real list \<Rightarrow> real" where
  "py_sum xs = foldl (+) 0 xs"

fun py_min :: "real list \<Rightarrow> real" where
  "py_min [] = 0"
| "py_min (x # xs) = foldl (\<lambda>m y. if y < m then y else m) x xs"

fun py_max :: "real list \<Rightarrow> real" where
  "py_max [] = 0"
| "py_max (x # xs) = foldl (\<lambda>m y. if y > m then y else m) x xs"

subsection \<open>Agent\<close>

definition Agent_init :: "int \<Rightarrow> real \<Rightarrow> Agent" where
  "Agent_init aid v = \<lparr>agent_id = aid, val = v, neighbors = []\<rparr>"

definition update_value :: "real \<Rightarrow> Agent \<Rightarrow> Agent" where
  "update_value new_value ag = ag\<lparr>val := new_value\<rparr>"

subsection \<open>Network\<close>

definition Network_init :: Network where
  "Network_init = \<lparr>agents = []\<rparr>"

definition add_agent :: "int \<Rightarrow> real \<Rightarrow> Network \<Rightarrow> (error + unit) \<times> Network" where
  "add_agent aid initial_value net =
     (if dict_mem aid (agents net) then (Inl ValueError, net)
      else (Inr (), net\<lparr>agents := dict_set aid (Agent_init aid initial_value) (agents net)\<rparr>))"

text \<open>
  \<open>self.agents[k].neighbors.append(n)\<close>: the agent stored under \<open>k\<close> is mutated in place;
  the subscript raises \<open>KeyError\<close> when \<open>k\<close> is absent.
\<close>

definition append_neighbor :: "int \<Rightarrow> int \<Rightarrow> Network \<Rightarrow> (error + unit) \<times> Network" where
  "append_neighbor k n net =
     (case map_of (agents net) k of
        None \<Rightarrow> (Inl KeyError, net)
      | Some ag \<Rightarrow>
          (Inr (), net\<lparr>agents := dict_set k (ag\<lparr>neighbors := neighbors ag @ [n]\<rparr>) (agents net)\<rparr>))"

definition add_edge :: "int \<Rightarrow> int \<Rightarrow> Network \<Rightarrow> (error + unit) \<times> Network" where
  "add_edge agent_id_a agent_id_b net =
     (if \<not> dict_mem agent_id_a (agents net) \<or> \<not> dict_mem agent_id_b (agents net)
      then (Inl KeyError, net)
      else (case append_neighbor agent_id_a agent_id_b net of
              (Inl e, net1) \<Rightarrow> (Inl e, net1)
            | (Inr _, net1) \<Rightarrow> append_neighbor agent_id_b agent_id_a net1))"

definition get_all_values :: "Network \<Rightarrow> (int \<times> real) list" where
  "get_all_values net = map (\<lambda>(aid, ag). (aid, val ag)) (agents net)"

subsection \<open>ConsensusSimulation\<close>

definition ConsensusSimulation_init :: "Network \<Rightarrow> real \<Rightarrow> error + ConsensusSimulation" where
  "ConsensusSimulation_init net alpha =
     (if \<not> (0 < alpha \<and> alpha \<le> 1) then Inl ValueError
      else Inr \<lparr>network = net, step_size = alpha, current_round = 0, previous_values = []\<rparr>)"

definition initialize_previous_values :: "ConsensusSimulation \<Rightarrow> ConsensusSimulation" where
  "initialize_previous_values s =
     s\<lparr>previous_values := map (\<lambda>(aid, ag). (aid, val ag)) (agents (network s))\<rparr>"

text \<open>
  \<open>[self.network.agents[n].value for n in ag.neighbors]\<close>: the subscript raises
  \<open>KeyError\<close> at the first neighbor id that is not an agent of the network.
\<close>

fun neighbor_values :: "(int \<times> Agent) list \<Rightarrow> int list \<Rightarrow> error + real list" where
  "neighbor_values ags [] = Inr []"
| "neighbor_values ags (n # ns) =
     (case map_of ags n of
        None \<Rightarrow> Inl KeyError
      | Some a \<Rightarrow>
          (case neighbor_values ags ns of
             Inl e \<Rightarrow> Inl e
           | Inr vs \<Rightarrow> Inr (val a # vs)))"

text \<open>
  The first loop of \<open>step\<close>: it walks \<open>agents.items()\<close> and fills the local dict
  \<open>new_values\<close>; the network \<open>ags\<close> is only read.
\<close>

fun compute_new_values ::
  "real \<Rightarrow> (int \<times> Agent) list \<Rightarrow> (int \<times> Agent) list \<Rightarrow> (int \<times> real) list
     \<Rightarrow> error + (int \<times> real) list" where
  "compute_new_values alpha ags [] new_values = Inr new_values"
| "compute_new_values alpha ags ((aid, ag) # items) new_values =
     (if neighbors ag = []
      then compute_new_values alpha ags items (dict_set aid (val ag) new_values)
      else (case neighbor_values ags (neighbors ag) of
              Inl e \<Rightarrow> Inl e
            | Inr nvs \<Rightarrow>
                (let average_local = (val ag + py_sum nvs) / real (1 + length nvs);
                     updated_value = val ag + alpha * (average_local - val ag)
                 in compute_new_values alpha ags items (dict_set aid updated_value new_values))))"

text \<open>The second loop of \<open>step\<close>: \<open>self.network.agents[aid].update_value(new_values[aid])\<close>.\<close>

fun apply_new_values :: "(int \<times> real) list \<Rightarrow> Network \<Rightarrow> (error + unit) \<times> Network" where
  "apply_new_values [] net = (Inr (), net)"
| "apply_new_values ((aid, v) # rest) net =
     (case map_of (agents net) aid of
        None \<Rightarrow> (Inl KeyError, net)
      | Some ag \<Rightarrow>
          apply_new_values rest (net\<lparr>agents := dict_set aid (update_value v ag) (agents net)\<rparr>))"

definition step :: "ConsensusSimulation \<Rightarrow> (error + unit) \<times> ConsensusSimulation" where
  "step s =
     (case compute_new_values (step_size s) (agents (network s)) (agents (network s)) [] of
        Inl e \<Rightarrow> (Inl e, s)
      | Inr new_values \<Rightarrow>
          (case apply_new_values new_values (network s) of
             (Inl e, net') \<Rightarrow> (Inl e, s\<lparr>network := net'\<rparr>)
           | (Inr _, net') \<Rightarrow>
               (Inr (), s\<lparr>network := net', current_round := current_round s + 1\<rparr>)))"

text \<open>The counting loop of \<open>has_converged\<close>.\<close>

fun count_changed :: "real \<Rightarrow> (int \<times> real) list \<Rightarrow> (int \<times> Agent) list \<Rightarrow> nat \<Rightarrow> nat" where
  "count_changed epsilon prev [] changed = changed"
| "count_changed epsilon prev ((aid, ag) # items) changed =
     (let old_v = dict_get prev aid (val ag)
      in if \<bar>val ag - old_v\<bar> > epsilon
         then count_changed epsilon prev items (changed + 1)
         else count_changed epsilon prev items changed)"

definition has_converged :: "real \<Rightarrow> ConsensusSimulation \<Rightarrow> bool \<times> ConsensusSimulation" where
  "has_converged epsilon s =
     (let all_values = map (\<lambda>(aid, ag). val ag) (agents (network s))
      in if all_values = [] then (True, s)
         else
           (let min_val = py_min all_values; max_val = py_max all_values
            in if max_val - min_val < epsilon then (True, s)
               else
                 (let changed = count_changed epsilon (previous_values s) (agents (network s)) 0;
                      s' = s\<lparr>previous_values :=
                               map (\<lambda>(aid, ag). (aid, val ag)) (agents (network s))\<rparr>
                  in if length (agents (network s)) > 0
                     then (if real changed / real (length (agents (network s))) < 2 / 10
                           then (True, s') else (False, s'))
                     else (False, s'))))"

text \<open>
  The loop of \<open>run\<close> over \<open>range(max_rounds)\<close>, by the number of iterations left; \<open>break\<close>
  leaves it as soon as \<open>has_converged\<close> answers true.
\<close>

fun run_loop :: "nat \<Rightarrow> real \<Rightarrow> ConsensusSimulation \<Rightarrow> (error + unit) \<times> ConsensusSimulation" where
  "run_loop 0 epsilon s = (Inr (), s)"
| "run_loop (Suc n) epsilon s =
     (case step s of
        (Inl e, s1) \<Rightarrow> (Inl e, s1)
      | (Inr _, s1) \<Rightarrow>
          (case has_converged epsilon s1 of
             (True, s2) \<Rightarrow> (Inr (), s2)
           | (False, s2) \<Rightarrow> run_loop n epsilon s2))"

definition run :: "int \<Rightarrow> real \<Rightarrow> ConsensusSimulation \<Rightarrow> (error + int) \<times> ConsensusSimulation" where
  "run max_rounds epsilon s =
     (case run_loop (nat max_rounds) epsilon (initialize_previous_values s) of
        (Inl e, s') \<Rightarrow> (Inl e, s')
      | (Inr _, s') \<Rightarrow> (Inr (current_round s'), s'))"

subsection \<open>Well-formed networks\<close>

text \<open>
  What \<open>add_agent\<close> and \<open>add_edge\<close> maintain: the keys of the dict are pairwise distinct
  and every neighbor id is the id of an agent of the network.
\<close>

definition wf_network :: "Network \<Rightarrow> bool" where
  "wf_network net =
     (distinct (map fst (agents net)) \<and>
      list_all (\<lambda>(aid, ag). list_all (\<lambda>n. dict_mem n (agents net)) (neighbors ag)) (agents net))"

subsection \<open>The update rule and the callers used in the statements\<close>

text \<open>
  The update rule in the words of the specification: an agent without neighbors keeps its
  value; otherwise, with \<open>S\<close> the sum of the neighbors' values (one summand per entry of
  the neighbor list) and \<open>n\<close> the number of entries, the new value is
  \<open>value + step_size * (local_average - value)\<close> where
  \<open>local_average = (value + S) / (1 + n)\<close>. The values are read from \<open>ags\<close>.
\<close>

definition spec_updated :: "real \<Rightarrow> (int \<times> Agent) list \<Rightarrow> Agent \<Rightarrow> real" where
  "spec_updated alpha ags A =
     (if neighbors A = [] then val A
      else (let S = sum_list (map (\<lambda>n. val (the (map_of ags n))) (neighbors A));
                n = length (neighbors A);
                local_average = (val A + S) / (1 + real n)
            in val A + alpha * (local_average - val A)))"

text \<open>The network that \<open>main_example\<close> builds: four agents in a line.\<close>

definition main_example_net :: Network where
  "main_example_net =
     \<lparr>agents = [(0, \<lparr>agent_id = 0, val = 10, neighbors = [1]\<rparr>),
                (1, \<lparr>agent_id = 1, val = 0, neighbors = [0, 2]\<rparr>),
                (2, \<lparr>agent_id = 2, val = 20, neighbors = [1, 3]\<rparr>),
                (3, \<lparr>agent_id = 3, val = 30, neighbors = [2]\<rparr>)]\<rparr>"

text \<open>A caller that invokes \<open>step\<close> \<open>n\<close> times in a row.\<close>

fun repeat_step :: "nat \<Rightarrow> ConsensusSimulation \<Rightarrow> (error + unit) \<times> ConsensusSimulation" where
  "repeat_step 0 s = (Inr (), s)"
| "repeat_step (Suc n) s =
     (case step s of
        (Inl e, s1) \<Rightarrow> (Inl e, s1)
      | (Inr _, s1) \<Rightarrow> repeat_step n s1)"

text \<open>
  The change test of \<open>has_converged\<close> in the words of the specification: an agent has
  moved when its value differs from its snapshot entry by more than \<open>epsilon\<close>; without
  an entry its current value stands in for the old one.
\<close>

definition moved :: "real \<Rightarrow> (int \<times> real) list \<Rightarrow> int \<times> Agent \<Rightarrow> bool" where
  "moved epsilon prev =
     (\<lambda>(aid, ag). case map_of prev aid of
                     None \<Rightarrow> \<bar>val ag - val ag\<bar> > epsilon
                   | Some old_v \<Rightarrow> \<bar>val ag - old_v\<bar> > epsilon)"

text \<open>
  The rounds of \<open>run\<close>, one round being \<open>step\<close> followed by \<open>has_converged\<close>:
  \<open>after_rounds j\<close> is the state after \<open>j\<close> rounds, \<open>round_verdict j\<close> (for \<open>j \<ge> 1\<close>)
  the answer of \<open>has_converged\<close> at the end of round \<open>j\<close>, and \<open>rounds_done n\<close> the number
  of rounds a budget of \<open>n\<close> rounds gets to: the first round whose verdict is true, or \<open>n\<close>.
\<close>

fun after_rounds :: "nat \<Rightarrow> real \<Rightarrow> ConsensusSimulation \<Rightarrow> ConsensusSimulation" where
  "after_rounds 0 epsilon s = s"
| "after_rounds (Suc j) epsilon s =
     after_rounds j epsilon (snd (has_converged epsilon (snd (step s))))"

definition round_verdict :: "nat \<Rightarrow> real \<Rightarrow> ConsensusSimulation \<Rightarrow> bool" where
  "round_verdict j epsilon s =
     fst (has_converged epsilon (snd (step (after_rounds (j - 1) epsilon s))))"

fun rounds_done :: "nat \<Rightarrow> real \<Rightarrow> ConsensusSimulation \<Rightarrow> nat" where
  "rounds_done 0 epsilon s = 0"
| "rounds_done (Suc n) epsilon s =
     (if fst (has_converged epsilon (snd (step s))) then 1
      else Suc (rounds_done n epsilon (snd (has_converged epsilon (snd (step s))))))"

subsection \<open>The update of one agent in binary64 arithmetic\<close>

text \<open>
  A Python float is an IEEE-754 binary64 number and every float operation rounds its exact
  result to the nearest such number, ties to the even significand. \<open>round_to_double\<close>
  is that rounding on the reals: \<open>find_exp\<close> finds the exponent of the leading bit, never
  below \<open>-1022\<close> (subnormal numbers share the exponent \<open>-1022\<close>) nor above 1023, and
  \<open>round_at\<close> rounds to the nearest multiple of the unit in the last place, which is
  \<open>2\<close> to the power \<open>e - 52\<close>. A result beyond the largest finite double is \<open>None\<close>:
  Python yields \<open>inf\<close> there, which is outside this model, as is NaN.
\<close>

definition pow2 :: "int \<Rightarrow> real" where
  "pow2 e = (if 0 \<le> e then 2 ^ nat e else 1 / 2 ^ nat (- e))"


definition max_double :: real where
  "max_double = (2 ^ 53 - 1) * 2 ^ 971"

definition round_at :: "int \<Rightarrow> real \<Rightarrow> real option" where
  "round_at e x =
     (let ulp = pow2 (e - 52);
          q = \<bar>x\<bar> / ulp;
          m = \<lfloor>q\<rfloor>;
          r = q - of_int m;
          n = (if 1 / 2 < r \<or> (r = 1 / 2 \<and> odd m) then m + 1 else m);
          y = of_int n * ulp
      in if max_double < y then None else Some (if x < 0 then - y else y))"










section \<open>Dictionaries and builtins\<close>

lemma map_of_dict_set: "map_of (dict_set k v d) = (map_of d)(k \<mapsto> v)"
  by (induction d) (auto simp: fun_eq_iff)

lemma dict_set_absent: "map_of d k = None \<Longrightarrow> dict_set k v d = d @ [(k, v)]"
  by (induction d) (auto split: if_splits)

lemma keys_dict_set_present: "map_of d k \<noteq> None \<Longrightarrow> map fst (dict_set k v d) = map fst d"
  by (induction d) (auto split: if_splits)

lemma py_min_Min: "xs \<noteq> [] \<Longrightarrow> py_min xs = Min (set xs)"
proof (cases xs)
  case Nil
  then show "xs \<noteq> [] \<Longrightarrow> ?thesis" by simp
next
  case (Cons x ys)
  have "(\<lambda>(y::real) m. if y < m then y else m) = min"
    by (auto simp: fun_eq_iff min_def)
  moreover have "Min (set (x # ys)) = fold min ys x"
    by (rule Min.set_eq_fold)
  ultimately show ?thesis
    using Cons by (simp add: foldl_conv_fold)
qed

lemma py_max_Max: "xs \<noteq> [] \<Longrightarrow> py_max xs = Max (set xs)"
proof (cases xs)
  case Nil
  then show "xs \<noteq> [] \<Longrightarrow> ?thesis" by simp
next
  case (Cons x ys)
  have "(\<lambda>(y::real) m. if m < y then y else m) = max"
    by (auto simp: fun_eq_iff max_def)
  moreover have "Max (set (x # ys)) = fold max ys x"
    by (rule Max.set_eq_fold)
  ultimately show ?thesis
    using Cons by (simp add: foldl_conv_fold)
qed

lemma py_sum_sum_list: "py_sum xs = sum_list xs"
proof -
  have "foldl (+) a xs = a + sum_list xs" for a :: real
    by (induction xs arbitrary: a) simp_all
  then show ?thesis by (simp add: py_sum_def)
qed

section \<open>Construction and topology\<close>

text \<open>
  Claim C5. Constructing a \<open>ConsensusSimulation\<close> raises (\<open>ValueError\<close>, the spec's
  InvalidConfiguration) exactly when \<open>step_size \<le> 0\<close> or \<open>step_size > 1\<close>, and then no
  simulation object is returned; otherwise it returns the simulation on the given network
  with round counter 0 and an empty snapshot. So 0, 1.5 and -0.2 are refused while 1.0 and
  0.0001 are accepted.
\<close>

theorem ConsensusSimulation_init_step_size:
  "(ConsensusSimulation_init net alpha = Inl ValueError) = (alpha \<le> 0 \<or> 1 < alpha)
   \<and> (ConsensusSimulation_init net alpha =
        Inr \<lparr>network = net, step_size = alpha, current_round = 0, previous_values = []\<rparr>)
       = (0 < alpha \<and> alpha \<le> 1)
   \<and> ConsensusSimulation_init net 0 = Inl ValueError
   \<and> ConsensusSimulation_init net (15 / 10) = Inl ValueError
   \<and> ConsensusSimulation_init net (- (2 / 10)) = Inl ValueError
   \<and> ConsensusSimulation_init net 1 =
        Inr \<lparr>network = net, step_size = 1, current_round = 0, previous_values = []\<rparr>
   \<and> ConsensusSimulation_init net (1 / 10000) =
        Inr \<lparr>network = net, step_size = 1 / 10000, current_round = 0, previous_values = []\<rparr>"
  by (auto simp: ConsensusSimulation_init_def)

text \<open>
  Claim C6. \<open>add_agent\<close> on an id that is not present appends a new agent with the given
  value and an empty neighbor list and changes nothing else; on an id that is present it
  raises (\<open>ValueError\<close>, the spec's DuplicateIdentifier) and the network is exactly the one
  it was called on, so the existing agent keeps its value.
\<close>

theorem add_agent_spec:
  "(\<not> dict_mem aid (agents net) \<longrightarrow>
      add_agent aid v net =
        (Inr (), net\<lparr>agents := agents net @ [(aid, \<lparr>agent_id = aid, val = v, neighbors = []\<rparr>)]\<rparr>))
   \<and> (dict_mem aid (agents net) \<longrightarrow> add_agent aid v net = (Inl ValueError, net))"
  by (simp add: add_agent_def dict_mem_def dict_set_absent Agent_init_def)

theorem add_agent_spec_witness:
  "\<not> dict_mem 1 (agents Network_init)
   \<and> add_agent 1 5 Network_init =
        (Inr (), \<lparr>agents = [(1, \<lparr>agent_id = 1, val = 5, neighbors = []\<rparr>)]\<rparr>)
   \<and> dict_mem 1 (agents \<lparr>agents = [(1, \<lparr>agent_id = 1, val = 5, neighbors = []\<rparr>)]\<rparr>)
   \<and> add_agent 1 10 \<lparr>agents = [(1, \<lparr>agent_id = 1, val = 5, neighbors = []\<rparr>)]\<rparr> =
        (Inl ValueError, \<lparr>agents = [(1, \<lparr>agent_id = 1, val = 5, neighbors = []\<rparr>)]\<rparr>)"
  using add_agent_spec [of 1 Network_init 5]
    add_agent_spec [of 1 "\<lparr>agents = [(1, \<lparr>agent_id = 1, val = 5, neighbors = []\<rparr>)]\<rparr>" 10]
  by (simp add: dict_mem_def Network_init_def)

text \<open>
  Claim C7. \<open>add_edge a b\<close> raises (\<open>KeyError\<close>, the spec's UnknownAgent) when either id
  is absent, and the network is then unchanged. Otherwise it succeeds, keeps the agents and
  their order, and every agent's neighbor list is its old list followed by \<open>b\<close> if the
  agent is \<open>a\<close> and then by \<open>a\<close> if the agent is \<open>b\<close>: two appends at the end, no
  deduplication, and both on the same list when \<open>a = b\<close>; values and ids are untouched.
\<close>

theorem add_edge_spec:
  "(\<not> dict_mem a (agents net) \<or> \<not> dict_mem b (agents net) \<longrightarrow>
      add_edge a b net = (Inl KeyError, net))
   \<and> (dict_mem a (agents net) \<and> dict_mem b (agents net) \<longrightarrow>
        (\<exists>net'. add_edge a b net = (Inr (), net')
           \<and> map fst (agents net') = map fst (agents net)
           \<and> (\<forall>k ag. map_of (agents net) k = Some ag \<longrightarrow>
                 map_of (agents net') k =
                   Some (ag\<lparr>neighbors := neighbors ag @ (if k = a then [b] else [])
                                                      @ (if k = b then [a] else [])\<rparr>))))"
  by (auto simp: add_edge_def append_neighbor_def dict_mem_def map_of_dict_set
      keys_dict_set_present split: option.splits)

theorem add_edge_spec_witness:
  "\<not> dict_mem 5 (agents \<lparr>agents = [(0, \<lparr>agent_id = 0, val = 10, neighbors = []\<rparr>)]\<rparr>)
   \<and> add_edge 0 5 \<lparr>agents = [(0, \<lparr>agent_id = 0, val = 10, neighbors = []\<rparr>)]\<rparr> =
        (Inl KeyError, \<lparr>agents = [(0, \<lparr>agent_id = 0, val = 10, neighbors = []\<rparr>)]\<rparr>)
   \<and> dict_mem 0 (agents \<lparr>agents = [(0, \<lparr>agent_id = 0, val = 10, neighbors = [1]\<rparr>),
                                  (1, \<lparr>agent_id = 1, val = 0, neighbors = [0]\<rparr>)]\<rparr>)
   \<and> dict_mem 1 (agents \<lparr>agents = [(0, \<lparr>agent_id = 0, val = 10, neighbors = [1]\<rparr>),
                                  (1, \<lparr>agent_id = 1, val = 0, neighbors = [0]\<rparr>)]\<rparr>)
   \<and> (\<exists>net'. add_edge 0 1 \<lparr>agents = [(0, \<lparr>agent_id = 0, val = 10, neighbors = [1]\<rparr>),
                                         (1, \<lparr>agent_id = 1, val = 0, neighbors = [0]\<rparr>)]\<rparr> = (Inr (), net')
          \<and> map_of (agents net') 0 = Some \<lparr>agent_id = 0, val = 10, neighbors = [1, 1]\<rparr>
          \<and> map_of (agents net') 1 = Some \<lparr>agent_id = 1, val = 0, neighbors = [0, 0]\<rparr>)
   \<and> dict_mem 0 (agents \<lparr>agents = [(0, \<lparr>agent_id = 0, val = 10, neighbors = []\<rparr>)]\<rparr>)
   \<and> (\<exists>net'. add_edge 0 0 \<lparr>agents = [(0, \<lparr>agent_id = 0, val = 10, neighbors = []\<rparr>)]\<rparr> =
                  (Inr (), net')
          \<and> map_of (agents net') 0 = Some \<lparr>agent_id = 0, val = 10, neighbors = [0, 0]\<rparr>)"
proof -
  let ?n0 = "\<lparr>agents = [(0, \<lparr>agent_id = 0, val = 10, neighbors = []\<rparr>)]\<rparr>"
  let ?n1 = "\<lparr>agents = [(0, \<lparr>agent_id = 0, val = 10, neighbors = [1]\<rparr>),
                        (1, \<lparr>agent_id = 1, val = 0, neighbors = [0]\<rparr>)]\<rparr>"
  have absent: "\<not> dict_mem 5 (agents ?n0)"
    by (simp add: dict_mem_def)
  have present: "dict_mem 0 (agents ?n1) \<and> dict_mem 1 (agents ?n1)"
    by (simp add: dict_mem_def)
  from absent add_edge_spec [of 0 ?n0 5]
  have fails: "add_edge 0 5 ?n0 = (Inl KeyError, ?n0)"
    by blast
  from present add_edge_spec [of 0 ?n1 1]
  obtain net' where ok: "add_edge 0 1 ?n1 = (Inr (), net')"
    and nb: "\<forall>k ag. map_of (agents ?n1) k = Some ag \<longrightarrow>
               map_of (agents net') k =
                 Some (ag\<lparr>neighbors := neighbors ag @ (if k = 0 then [1] else [])
                                                    @ (if k = 1 then [0] else [])\<rparr>)"
    by blast
  from nb [rule_format, of 0 "\<lparr>agent_id = 0, val = 10, neighbors = [1]\<rparr>"]
  have a0: "map_of (agents net') 0 = Some \<lparr>agent_id = 0, val = 10, neighbors = [1, 1]\<rparr>"
    by simp
  from nb [rule_format, of 1 "\<lparr>agent_id = 1, val = 0, neighbors = [0]\<rparr>"]
  have a1: "map_of (agents net') 1 = Some \<lparr>agent_id = 1, val = 0, neighbors = [0, 0]\<rparr>"
    by simp
  have self: "dict_mem 0 (agents ?n0)"
    by (simp add: dict_mem_def)
  from self add_edge_spec [of 0 ?n0 0]
  obtain net2 where ok2: "add_edge 0 0 ?n0 = (Inr (), net2)"
    and nb2: "\<forall>k ag. map_of (agents ?n0) k = Some ag \<longrightarrow>
               map_of (agents net2) k =
                 Some (ag\<lparr>neighbors := neighbors ag @ (if k = 0 then [0] else [])
                                                    @ (if k = 0 then [0] else [])\<rparr>)"
    by blast
  from nb2 [rule_format, of 0 "\<lparr>agent_id = 0, val = 10, neighbors = []\<rparr>"]
  have b0: "map_of (agents net2) 0 = Some \<lparr>agent_id = 0, val = 10, neighbors = [0, 0]\<rparr>"
    by simp
  from absent present fails ok a0 a1 self ok2 b0 show ?thesis
    by blast
qed

text \<open>
  The empty network is well formed, and \<open>add_agent\<close> and \<open>add_edge\<close> keep a network
  well formed whether they succeed or raise: every network built through them is.
\<close>

lemma dict_mem_iff: "dict_mem k d = (k \<in> fst ` set d)"
  by (simp add: dict_mem_def map_of_eq_None_iff)

lemma set_dict_set: "set (dict_set k v d) \<subseteq> insert (k, v) (set d)"
  by (induction d) auto

lemma keys_dict_set: "fst ` set (dict_set k v d) = insert k (fst ` set d)"
  by (induction d) auto

lemma wf_Network_init: "wf_network Network_init"
  by (simp add: wf_network_def Network_init_def)

lemma add_agent_wf:
  assumes "wf_network net"
  shows "wf_network (snd (add_agent aid v net))"
proof (cases "dict_mem aid (agents net)")
  case True
  with assms show ?thesis by (simp add: add_agent_def)
next
  case False
  then have absent: "map_of (agents net) aid = None"
    by (simp add: dict_mem_def)
  from False have "aid \<notin> fst ` set (agents net)"
    by (simp add: dict_mem_iff)
  with assms show ?thesis
    by (auto simp: add_agent_def False dict_set_absent [OF absent] wf_network_def
        Agent_init_def list_all_iff dict_mem_iff)
qed

lemma append_neighbor_wf:
  assumes "wf_network net" and "dict_mem n (agents net)"
  shows "wf_network (snd (append_neighbor k n net))"
proof (cases "map_of (agents net) k")
  case None
  with assms show ?thesis by (simp add: append_neighbor_def)
next
  case (Some ag)
  let ?ag' = "ag\<lparr>neighbors := neighbors ag @ [n]\<rparr>"
  let ?ags' = "dict_set k ?ag' (agents net)"
  from Some have mem: "(k, ag) \<in> set (agents net)"
    by (rule map_of_SomeD)
  then have kin: "k \<in> fst ` set (agents net)"
    by force
  have keys: "fst ` set ?ags' = fst ` set (agents net)"
    using kin by (auto simp: keys_dict_set)
  have d: "distinct (map fst ?ags')"
    using assms(1) Some by (simp add: keys_dict_set_present wf_network_def)
  have nb: "m \<in> fst ` set ?ags'" if "(a, x) \<in> set ?ags'" and "m \<in> set (neighbors x)" for a x m
  proof -
    from that(1) set_dict_set [of k ?ag' "agents net"]
    have "(a, x) = (k, ?ag') \<or> (a, x) \<in> set (agents net)"
      by auto
    then show ?thesis
    proof
      assume "(a, x) = (k, ?ag')"
      with that(2) have "m \<in> set (neighbors ag) \<or> m = n" by auto
      with assms mem show ?thesis
        by (auto simp: keys wf_network_def list_all_iff dict_mem_iff)
    next
      assume "(a, x) \<in> set (agents net)"
      with assms(1) that(2) show ?thesis
        by (auto simp: keys wf_network_def list_all_iff dict_mem_iff)
    qed
  qed
  from d nb show ?thesis
    by (auto simp: append_neighbor_def Some wf_network_def list_all_iff dict_mem_iff)
qed

lemma append_neighbor_mem:
  "dict_mem m (agents (snd (append_neighbor k n net))) = dict_mem m (agents net)"
  by (auto simp: append_neighbor_def dict_mem_def map_of_dict_set split: option.splits)

lemma add_edge_wf:
  assumes "wf_network net"
  shows "wf_network (snd (add_edge a b net))"
proof (cases "dict_mem a (agents net) \<and> dict_mem b (agents net)")
  case False
  with assms show ?thesis by (auto simp: add_edge_def)
next
  case True
  obtain r net1 where first: "append_neighbor a b net = (r, net1)"
    by (cases "append_neighbor a b net")
  from True have "r = Inr ()"
    using first by (auto simp: append_neighbor_def dict_mem_def split: option.splits)
  moreover have wf1: "wf_network net1"
    using append_neighbor_wf [OF assms, of b a] True first by simp
  moreover have "dict_mem a (agents net1)"
    using append_neighbor_mem [of a a b net] True first by simp
  ultimately show ?thesis
    using append_neighbor_wf [OF wf1, of a b] True first
    by (simp add: add_edge_def)
qed

section \<open>Convergence check\<close>

text \<open>
  Claim C9. \<open>has_converged\<close> never changes the network (values and neighbor lists). When
  the network is empty or the spread \<open>max - min\<close> is below \<open>epsilon\<close> the whole simulation
  state, \<open>previous_values\<close> included, is left as it was; otherwise \<open>previous_values\<close>
  becomes the current id-to-value mapping and nothing else changes, whatever the answer.
\<close>

theorem has_converged_frame:
  "network (snd (has_converged epsilon s)) = network s
   \<and> (agents (network s) = []
        \<or> Max (val ` snd ` set (agents (network s))) - Min (val ` snd ` set (agents (network s))) < epsilon
       \<longrightarrow> snd (has_converged epsilon s) = s)
   \<and> (agents (network s) \<noteq> []
        \<and> \<not> Max (val ` snd ` set (agents (network s))) - Min (val ` snd ` set (agents (network s))) < epsilon
       \<longrightarrow> snd (has_converged epsilon s) = s\<lparr>previous_values := get_all_values (network s)\<rparr>)"
proof -
  let ?vs = "map (\<lambda>(aid, ag). val ag) (agents (network s))"
  have set_vs: "(\<lambda>(aid, ag). val ag) ` set (agents (network s)) = val ` snd ` set (agents (network s))"
    by (force simp: image_iff)
  show ?thesis
    by (cases "agents (network s) = []")
      (simp_all add: has_converged_def Let_def py_min_Min py_max_Max set_vs get_all_values_def
        del: py_min.simps py_max.simps)
qed

theorem has_converged_frame_witness:
  "agents (network \<lparr>network = \<lparr>agents = [(0, \<lparr>agent_id = 0, val = 10, neighbors = [1]\<rparr>),
                                             (1, \<lparr>agent_id = 1, val = 0, neighbors = [0]\<rparr>)]\<rparr>,
                      step_size = 1 / 2, current_round = 1, previous_values = []\<rparr>) \<noteq> []
   \<and> snd (has_converged (1 / 1000)
          \<lparr>network = \<lparr>agents = [(0, \<lparr>agent_id = 0, val = 10, neighbors = [1]\<rparr>),
                                  (1, \<lparr>agent_id = 1, val = 0, neighbors = [0]\<rparr>)]\<rparr>,
           step_size = 1 / 2, current_round = 1, previous_values = []\<rparr>) =
        \<lparr>network = \<lparr>agents = [(0, \<lparr>agent_id = 0, val = 10, neighbors = [1]\<rparr>),
                                 (1, \<lparr>agent_id = 1, val = 0, neighbors = [0]\<rparr>)]\<rparr>,
          step_size = 1 / 2, current_round = 1, previous_values = [(0, 10), (1, 0)]\<rparr>
   \<and> snd (has_converged 11
          \<lparr>network = \<lparr>agents = [(0, \<lparr>agent_id = 0, val = 10, neighbors = [1]\<rparr>),
                                  (1, \<lparr>agent_id = 1, val = 0, neighbors = [0]\<rparr>)]\<rparr>,
           step_size = 1 / 2, current_round = 1, previous_values = []\<rparr>) =
        \<lparr>network = \<lparr>agents = [(0, \<lparr>agent_id = 0, val = 10, neighbors = [1]\<rparr>),
                                 (1, \<lparr>agent_id = 1, val = 0, neighbors = [0]\<rparr>)]\<rparr>,
          step_size = 1 / 2, current_round = 1, previous_values = []\<rparr>"
  using has_converged_frame [of "1 / 1000"
      "\<lparr>network = \<lparr>agents = [(0, \<lparr>agent_id = 0, val = 10, neighbors = [1]\<rparr>),
                               (1, \<lparr>agent_id = 1, val = 0, neighbors = [0]\<rparr>)]\<rparr>,
        step_size = 1 / 2, current_round = 1, previous_values = []\<rparr>"]
    has_converged_frame [of 11
      "\<lparr>network = \<lparr>agents = [(0, \<lparr>agent_id = 0, val = 10, neighbors = [1]\<rparr>),
                               (1, \<lparr>agent_id = 1, val = 0, neighbors = [0]\<rparr>)]\<rparr>,
        step_size = 1 / 2, current_round = 1, previous_values = []\<rparr>"]
  by (simp add: get_all_values_def)

section \<open>The synchronous round\<close>

text \<open>
  On a well-formed network the two loops of \<open>step\<close> amount to one simultaneous
  assignment: every agent's value becomes \<open>spec_updated\<close> of the values before the round.
\<close>

lemma neighbor_values_present:
  "list_all (\<lambda>n. dict_mem n ags) ns \<Longrightarrow>
     neighbor_values ags ns = Inr (map (\<lambda>n. val (the (map_of ags n))) ns)"
  by (induction ns) (auto simp: dict_mem_def)

lemma compute_new_values_fold:
  "list_all (\<lambda>(aid, ag). list_all (\<lambda>n. dict_mem n ags) (neighbors ag)) items \<Longrightarrow>
     compute_new_values alpha ags items acc =
       Inr (fold (\<lambda>(aid, ag). dict_set aid (spec_updated alpha ags ag)) items acc)"
proof (induction items arbitrary: acc)
  case Nil
  then show ?case by simp
next
  case (Cons p items)
  obtain aid ag where p: "p = (aid, ag)" by (cases p)
  from Cons.prems p have nb: "list_all (\<lambda>n. dict_mem n ags) (neighbors ag)"
    and rest: "list_all (\<lambda>(aid, ag). list_all (\<lambda>n. dict_mem n ags) (neighbors ag)) items"
    by simp_all
  show ?case
    using Cons.IH [OF rest] neighbor_values_present [OF nb]
    by (simp add: p spec_updated_def Let_def py_sum_sum_list add.commute)
qed

lemma fold_dict_set_fresh:
  "distinct (map fst acc @ map fst items) \<Longrightarrow>
     fold (\<lambda>(aid, ag). dict_set aid (f ag)) items acc = acc @ map (\<lambda>(aid, ag). (aid, f ag)) items"
proof (induction items arbitrary: acc)
  case Nil
  then show ?case by simp
next
  case (Cons p items)
  obtain aid ag where p: "p = (aid, ag)" by (cases p)
  from Cons.prems p have fresh: "map_of acc aid = None"
    by (auto simp: map_of_eq_None_iff)
  from Cons.prems p have "distinct (map fst (acc @ [(aid, f ag)]) @ map fst items)"
    by auto
  from Cons.IH [OF this] show ?case
    by (simp add: p dict_set_absent [OF fresh])
qed

lemma dict_set_middle:
  "k \<notin> fst ` set pre \<Longrightarrow> dict_set k v (pre @ (k, w) # post) = pre @ (k, v) # post"
  by (induction pre) auto

lemma map_of_middle:
  "k \<notin> fst ` set pre \<Longrightarrow> map_of (pre @ (k, w) # post) k = Some w"
  by (induction pre) auto

lemma apply_new_values_map:
  "agents net = pre @ items \<Longrightarrow> distinct (map fst pre @ map fst items) \<Longrightarrow>
     apply_new_values (map (\<lambda>(aid, ag). (aid, f ag)) items) net =
       (Inr (), net\<lparr>agents := pre @ map (\<lambda>(aid, ag). (aid, ag\<lparr>val := f ag\<rparr>)) items\<rparr>)"
proof (induction items arbitrary: pre net)
  case Nil
  then show ?case by simp
next
  case (Cons p items)
  obtain aid ag where p: "p = (aid, ag)" by (cases p)
  from Cons.prems p have fresh: "aid \<notin> fst ` set pre" by auto
  let ?net = "net\<lparr>agents := (pre @ [(aid, ag\<lparr>val := f ag\<rparr>)]) @ items\<rparr>"
  have a: "agents ?net = (pre @ [(aid, ag\<lparr>val := f ag\<rparr>)]) @ items" by simp
  from Cons.prems p
  have d: "distinct (map fst (pre @ [(aid, ag\<lparr>val := f ag\<rparr>)]) @ map fst items)" by auto
  have look: "map_of (agents net) aid = Some ag"
    using Cons.prems(1) map_of_middle [OF fresh, of ag items] by (simp add: p)
  have upd: "dict_set aid (update_value (f ag) ag) (agents net) =
               (pre @ [(aid, ag\<lparr>val := f ag\<rparr>)]) @ items"
    using Cons.prems(1) dict_set_middle [OF fresh, of "ag\<lparr>val := f ag\<rparr>" ag items]
    by (simp add: p update_value_def)
  from Cons.IH [OF a d] show ?case
    by (simp add: p look upd)
qed

lemma step_sync:
  assumes "wf_network (network s)"
  shows "step s =
           (Inr (), s\<lparr>network := (network s)\<lparr>agents :=
                         map (\<lambda>(aid, ag). (aid, ag\<lparr>val := spec_updated (step_size s) (agents (network s)) ag\<rparr>))
                           (agents (network s))\<rparr>,
                     current_round := current_round s + 1\<rparr>)"
proof -
  let ?ags = "agents (network s)"
  let ?f = "spec_updated (step_size s) ?ags"
  from assms have d: "distinct (map fst ?ags)"
    and nb: "list_all (\<lambda>(aid, ag). list_all (\<lambda>n. dict_mem n ?ags) (neighbors ag)) ?ags"
    by (simp_all add: wf_network_def)
  have "compute_new_values (step_size s) ?ags ?ags [] =
          Inr (map (\<lambda>(aid, ag). (aid, ?f ag)) ?ags)"
    using compute_new_values_fold [OF nb, of "step_size s" "[]"]
      fold_dict_set_fresh [of "[]" ?ags ?f] d by simp
  moreover have "apply_new_values (map (\<lambda>(aid, ag). (aid, ?f ag)) ?ags) (network s) =
      (Inr (), (network s)\<lparr>agents := map (\<lambda>(aid, ag). (aid, ag\<lparr>val := ?f ag\<rparr>)) ?ags\<rparr>)"
    using apply_new_values_map [of "network s" "[]" ?ags ?f] d by simp
  ultimately show ?thesis
    by (simp add: step_def)
qed


lemma map_of_map_val:
  "map_of (map (\<lambda>(aid, ag). (aid, g ag)) ags) k = map_option g (map_of ags k)"
  by (induction ags) auto

lemma dict_mem_map_val:
  "dict_mem n (map (\<lambda>(aid, ag). (aid, g ag)) ags) = dict_mem n ags"
  by (simp add: dict_mem_def map_of_map_val)

lemma keys_map_val: "map (fst \<circ> (\<lambda>(aid, ag). (aid, g ag))) ags = map fst ags"
  by (induction ags) auto

lemma wf_network_map_val:
  assumes "wf_network net" and "\<And>ag. neighbors (g ag) = neighbors ag"
  shows "wf_network (net\<lparr>agents := map (\<lambda>(aid, ag). (aid, g ag)) (agents net)\<rparr>)"
  using assms
  by (auto simp: wf_network_def keys_map_val dict_mem_map_val list_all_iff)

lemma step_wf:
  assumes "wf_network (network s)"
  shows "wf_network (network (snd (step s)))"
  using wf_network_map_val [OF assms, of "\<lambda>ag. ag\<lparr>val := spec_updated (step_size s) (agents (network s)) ag\<rparr>"]
  by (simp add: step_sync [OF assms])




lemma main_example_net_built:
  "(case add_agent 0 10 Network_init of (_, n0) \<Rightarrow>
    case add_agent 1 0 n0 of (_, n1) \<Rightarrow>
    case add_agent 2 20 n1 of (_, n2) \<Rightarrow>
    case add_agent 3 30 n2 of (_, n3) \<Rightarrow>
    case add_edge 0 1 n3 of (_, n4) \<Rightarrow>
    case add_edge 1 2 n4 of (_, n5) \<Rightarrow>
    add_edge 2 3 n5) = (Inr (), main_example_net)"
  by (simp add: add_agent_def add_edge_def append_neighbor_def dict_mem_def Network_init_def
      Agent_init_def main_example_net_def)

lemma wf_main_example_net: "wf_network main_example_net"
  by (simp add: wf_network_def main_example_net_def dict_mem_def)

text \<open>
  Claim C1. On a well-formed network \<open>step\<close> returns normally, increments
  \<open>current_round\<close> by exactly 1, keeps the agents, their order, ids and neighbor lists,
  and gives every agent \<open>A\<close> the value \<open>A.value + step_size * (local_average - A.value)\<close>
  with \<open>local_average = (A.value + S) / (1 + n)\<close>, where \<open>S\<close> sums the values that
  \<open>A\<close>'s neighbor entries had before the round (in list order, a repeated entry counted
  each time) and \<open>n\<close> is the number of entries; an agent with no neighbors keeps its
  value. All values on the right-hand side are those of the state before the round.
\<close>

theorem step_synchronous_update:
  assumes "wf_network (network s)"
  shows "\<exists>s'. step s = (Inr (), s')
           \<and> current_round s' = current_round s + 1
           \<and> map fst (agents (network s')) = map fst (agents (network s))
           \<and> (\<forall>aid A. map_of (agents (network s)) aid = Some A \<longrightarrow>
                (\<exists>A'. map_of (agents (network s')) aid = Some A'
                   \<and> agent_id A' = agent_id A \<and> neighbors A' = neighbors A
                   \<and> (neighbors A = [] \<longrightarrow> val A' = val A)
                   \<and> (neighbors A \<noteq> [] \<longrightarrow>
                        val A' = val A + step_size s *
                          ((val A + sum_list (map (\<lambda>n. val (the (map_of (agents (network s)) n)))
                                               (neighbors A)))
                             / (1 + real (length (neighbors A))) - val A))))"
  by (simp add: step_sync [OF assms] keys_map_val map_of_map_val spec_updated_def Let_def)

theorem step_synchronous_update_witness:
  "wf_network main_example_net
   \<and> (\<exists>s'. step \<lparr>network = main_example_net, step_size = 1 / 2, current_round = 0,
                   previous_values = []\<rparr> = (Inr (), s')
          \<and> current_round s' = 1
          \<and> (\<exists>A'. map_of (agents (network s')) 2 = Some A' \<and> val A' = 55 / 3))"
proof -
  let ?s = "\<lparr>network = main_example_net, step_size = 1 / 2, current_round = 0,
             previous_values = []\<rparr>"
  have wf: "wf_network (network ?s)"
    by (simp add: wf_main_example_net)
  from step_synchronous_update [OF wf]
  obtain s' where ok: "step ?s = (Inr (), s')" and r: "current_round s' = current_round ?s + 1"
    and upd: "\<forall>aid A. map_of (agents (network ?s)) aid = Some A \<longrightarrow>
                (\<exists>A'. map_of (agents (network s')) aid = Some A'
                   \<and> agent_id A' = agent_id A \<and> neighbors A' = neighbors A
                   \<and> (neighbors A = [] \<longrightarrow> val A' = val A)
                   \<and> (neighbors A \<noteq> [] \<longrightarrow>
                        val A' = val A + step_size ?s *
                          ((val A + sum_list (map (\<lambda>n. val (the (map_of (agents (network ?s)) n)))
                                               (neighbors A)))
                             / (1 + real (length (neighbors A))) - val A)))"
    by blast
  from upd [rule_format, of 2 "\<lparr>agent_id = 2, val = 20, neighbors = [1, 3]\<rparr>"]
  have "\<exists>A'. map_of (agents (network s')) 2 = Some A' \<and> val A' = 55 / 3"
    by (auto simp: main_example_net_def)
  with ok r wf_main_example_net show ?thesis
    by auto
qed

section \<open>Uniform networks, in exact and in binary64 arithmetic\<close>

text \<open>
  The exponent search returns the exponent of the leading bit of a number in the normal
  range, and the rounded value is within half a unit in the last place of the exact one.
\<close>

lemma pow2_powr: "pow2 e = 2 powr (real_of_int e)"
proof (cases "0 \<le> e")
  case True
  then show ?thesis
    by (simp add: pow2_def powr_realpow [symmetric])
next
  case False
  then have "real_of_int e = - real (nat (- e))" by simp
  with False show ?thesis
    by (simp add: pow2_def powr_minus powr_realpow [symmetric] field_simps del: of_nat_nat)
qed




lemma pow2_pos: "0 < pow2 e"
  by (simp add: pow2_powr)

lemma round_at_nearest:
  assumes "round_at e x = Some y"
  shows "\<bar>y - x\<bar> \<le> pow2 (e - 52) / 2"
proof -
  define ulp where "ulp = pow2 (e - 52)"
  define a where "a = \<bar>x\<bar>"
  define q where "q = a / ulp"
  define m where "m = \<lfloor>q\<rfloor>"
  define n where "n = (if 1 / 2 < q - of_int m \<or> (q - of_int m = 1 / 2 \<and> odd m) then m + 1 else m)"
  have ulp: "0 < ulp" by (simp add: ulp_def pow2_pos)
  have "of_int m \<le> q" and "q < of_int m + 1"
    by (simp_all add: m_def)
  then have near: "\<bar>of_int n - q\<bar> \<le> 1 / 2"
    by (simp add: n_def)
  have "of_int n * ulp - a = (of_int n - q) * ulp"
    using ulp by (simp add: q_def field_simps)
  then have "\<bar>of_int n * ulp - a\<bar> = \<bar>of_int n - q\<bar> * ulp"
    using ulp by (simp add: abs_mult)
  also have "\<dots> \<le> 1 / 2 * ulp"
    using near ulp by (intro mult_right_mono) simp_all
  finally have bound: "\<bar>of_int n * ulp - a\<bar> \<le> ulp / 2" by simp
  have "round_at e x =
      (if max_double < of_int n * ulp then None
       else Some (if x < 0 then - (of_int n * ulp) else of_int n * ulp))"
    by (simp only: round_at_def Let_def ulp_def a_def q_def m_def n_def)
  with assms have y: "y = (if x < 0 then - (of_int n * ulp) else of_int n * ulp)"
    by (simp split: if_splits)
  show ?thesis
  proof (cases "x < 0")
    case True
    with y have "y - x = - (of_int n * ulp - a)" by (simp add: a_def)
    then have "\<bar>y - x\<bar> = \<bar>of_int n * ulp - a\<bar>" by (simp only: abs_minus_cancel)
    with bound show ?thesis by (simp add: ulp_def)
  next
    case False
    with y have "y - x = of_int n * ulp - a" by (simp add: a_def)
    with bound show ?thesis by (simp add: ulp_def)
  qed
qed
















section \<open>Isolated agents\<close>

lemma step_isolated:
  assumes "wf_network (network s)"
    and "map_of (agents (network s)) aid = Some ag" and "neighbors ag = []"
  shows "map_of (agents (network (snd (step s)))) aid = Some ag"
  using assms(2,3) by (simp add: step_sync [OF assms(1)] map_of_map_val spec_updated_def)

lemma step_ok:
  assumes "wf_network (network s)"
  shows "step s = (Inr (), snd (step s))"
  by (simp add: step_sync [OF assms])

lemma has_converged_network: "network (snd (has_converged epsilon s)) = network s"
  by (simp add: has_converged_def Let_def)

lemma has_converged_current_round: "current_round (snd (has_converged epsilon s)) = current_round s"
  by (simp add: has_converged_def Let_def)

lemma step_current_round:
  assumes "wf_network (network s)"
  shows "current_round (snd (step s)) = current_round s + 1"
  by (simp add: step_sync [OF assms])

lemma repeat_step_Suc:
  assumes "wf_network (network s)"
  shows "repeat_step (Suc n) s = repeat_step n (snd (step s))"
proof -
  from step_sync [OF assms] obtain s1 where st: "step s = (Inr (), s1)"
    by blast
  then show ?thesis by simp
qed

lemma run_loop_Suc:
  assumes "wf_network (network s)"
  shows "run_loop (Suc n) epsilon s =
           (if fst (has_converged epsilon (snd (step s)))
            then (Inr (), snd (has_converged epsilon (snd (step s))))
            else run_loop n epsilon (snd (has_converged epsilon (snd (step s)))))"
proof -
  from step_sync [OF assms] obtain s1 where st: "step s = (Inr (), s1)"
    by blast
  obtain b s2 where hc: "has_converged epsilon s1 = (b, s2)"
    by (cases "has_converged epsilon s1")
  show ?thesis
    by (cases b) (simp_all add: st hc)
qed

lemma repeat_step_isolated:
  "wf_network (network s) \<Longrightarrow> map_of (agents (network s)) aid = Some ag \<Longrightarrow> neighbors ag = [] \<Longrightarrow>
     \<exists>s'. repeat_step n s = (Inr (), s') \<and> map_of (agents (network s')) aid = Some ag"
proof (induction n arbitrary: s)
  case 0
  then show ?case by simp
next
  case (Suc n)
  from Suc.IH [OF step_wf [OF Suc.prems(1)] step_isolated [OF Suc.prems] Suc.prems(3)]
  show ?case
    by (simp only: repeat_step_Suc [OF Suc.prems(1)])
qed

lemma run_loop_isolated:
  "wf_network (network s) \<Longrightarrow> map_of (agents (network s)) aid = Some ag \<Longrightarrow> neighbors ag = [] \<Longrightarrow>
     \<exists>s'. run_loop n epsilon s = (Inr (), s') \<and> map_of (agents (network s')) aid = Some ag"
proof (induction n arbitrary: s)
  case 0
  then show ?case by simp
next
  case (Suc n)
  let ?s1 = "snd (step s)"
  let ?s2 = "snd (has_converged epsilon ?s1)"
  have wf2: "wf_network (network ?s2)"
    using step_wf [OF Suc.prems(1)] by (simp add: has_converged_network)
  have iso2: "map_of (agents (network ?s2)) aid = Some ag"
    using step_isolated [OF Suc.prems] by (simp add: has_converged_network)
  from Suc.IH [OF wf2 iso2 Suc.prems(3)] iso2 show ?case
    by (simp only: run_loop_Suc [OF Suc.prems(1)] split: if_splits) simp
qed

text \<open>
  Claim C8. An agent with an empty neighbor list in a well-formed network is exactly the
  same agent, value included, after any number of consecutive \<open>step\<close> calls and after a
  whole \<open>run\<close>, whatever the step size, the round budget and the tolerance; both return
  normally.
\<close>

theorem isolated_agent_keeps_value:
  assumes "wf_network (network s)"
    and "map_of (agents (network s)) aid = Some ag" and "neighbors ag = []"
  shows "(\<exists>s'. repeat_step n s = (Inr (), s') \<and> map_of (agents (network s')) aid = Some ag)
         \<and> (\<exists>k s'. run max_rounds epsilon s = (Inr k, s')
                \<and> map_of (agents (network s')) aid = Some ag)"
proof -
  let ?s0 = "initialize_previous_values s"
  have "network ?s0 = network s"
    by (simp add: initialize_previous_values_def)
  with assms run_loop_isolated [of ?s0 aid ag "nat max_rounds" epsilon]
  obtain s' where "run_loop (nat max_rounds) epsilon ?s0 = (Inr (), s')"
    and "map_of (agents (network s')) aid = Some ag"
    by auto
  then have "\<exists>k s'. run max_rounds epsilon s = (Inr k, s')
                \<and> map_of (agents (network s')) aid = Some ag"
    by (simp add: run_def)
  with repeat_step_isolated [OF assms, of n] show ?thesis
    by blast
qed

theorem isolated_agent_keeps_value_witness:
  "wf_network \<lparr>agents = [(0, \<lparr>agent_id = 0, val = 10, neighbors = [1]\<rparr>),
                          (1, \<lparr>agent_id = 1, val = 0, neighbors = [0]\<rparr>),
                          (99, \<lparr>agent_id = 99, val = 999, neighbors = []\<rparr>)]\<rparr>
   \<and> (\<exists>s'. repeat_step 3
              \<lparr>network = \<lparr>agents = [(0, \<lparr>agent_id = 0, val = 10, neighbors = [1]\<rparr>),
                                      (1, \<lparr>agent_id = 1, val = 0, neighbors = [0]\<rparr>),
                                      (99, \<lparr>agent_id = 99, val = 999, neighbors = []\<rparr>)]\<rparr>,
                step_size = 1 / 2, current_round = 0, previous_values = []\<rparr> = (Inr (), s')
          \<and> map_of (agents (network s')) 99 = Some \<lparr>agent_id = 99, val = 999, neighbors = []\<rparr>)
   \<and> (\<exists>k s'. run 50 (1 / 100000)
              \<lparr>network = \<lparr>agents = [(0, \<lparr>agent_id = 0, val = 10, neighbors = [1]\<rparr>),
                                      (1, \<lparr>agent_id = 1, val = 0, neighbors = [0]\<rparr>),
                                      (99, \<lparr>agent_id = 99, val = 999, neighbors = []\<rparr>)]\<rparr>,
                step_size = 1 / 2, current_round = 0, previous_values = []\<rparr> = (Inr k, s')
          \<and> map_of (agents (network s')) 99 = Some \<lparr>agent_id = 99, val = 999, neighbors = []\<rparr>)"
proof -
  let ?net = "\<lparr>agents = [(0, \<lparr>agent_id = 0, val = 10, neighbors = [1]\<rparr>),
                         (1, \<lparr>agent_id = 1, val = 0, neighbors = [0]\<rparr>),
                         (99, \<lparr>agent_id = 99, val = 999, neighbors = []\<rparr>)]\<rparr>"
  let ?s = "\<lparr>network = ?net, step_size = 1 / 2, current_round = 0, previous_values = []\<rparr>"
  let ?ag = "\<lparr>agent_id = 99, val = 999, neighbors = []\<rparr>"
  have wf: "wf_network ?net"
    by (simp add: wf_network_def dict_mem_def)
  then have wf': "wf_network (network ?s)" by simp
  have look: "map_of (agents (network ?s)) 99 = Some ?ag" by simp
  have iso: "neighbors ?ag = []" by simp
  from isolated_agent_keeps_value [OF wf' look iso, of 3 50 "1 / 100000"] wf
  show ?thesis by simp
qed

section \<open>The verdict of the convergence check\<close>

lemma moved_iff:
  "moved epsilon prev (aid, ag) = (\<bar>val ag - dict_get prev aid (val ag)\<bar> > epsilon)"
  by (simp add: moved_def dict_get_def split: option.splits)

lemma count_changed_filter:
  "count_changed epsilon prev items c = c + length (filter (moved epsilon prev) items)"
proof (induction items arbitrary: c)
  case Nil
  then show ?case by simp
next
  case (Cons p items)
  obtain aid ag where p: "p = (aid, ag)" by (cases p)
  show ?case
    by (simp add: p Cons.IH moved_iff Let_def)
qed

text \<open>
  Claim C2. \<open>has_converged epsilon\<close> answers true when the network has no agents;
  otherwise true when \<open>max - min\<close> of the current values is below \<open>epsilon\<close>; otherwise it
  counts the agents that moved with respect to \<open>previous_values\<close> (an agent without a
  snapshot entry is compared with its own current value) and answers true exactly when
  that count divided by the number of agents is below 0.2. For \<open>epsilon \<ge> 0\<close> an agent
  without a snapshot entry is never counted.
\<close>

theorem has_converged_verdict:
  "fst (has_converged epsilon s) =
     (agents (network s) = []
      \<or> Max (val ` snd ` set (agents (network s))) - Min (val ` snd ` set (agents (network s))) < epsilon
      \<or> real (length (filter (moved epsilon (previous_values s)) (agents (network s))))
           / real (length (agents (network s))) < 2 / 10)
   \<and> (0 \<le> epsilon \<and> map_of prev aid = None \<longrightarrow> \<not> moved epsilon prev (aid, ag))"
proof -
  have set_vs: "(\<lambda>(aid, ag). val ag) ` set (agents (network s)) = val ` snd ` set (agents (network s))"
    by (force simp: image_iff)
  have "fst (has_converged epsilon s) =
     (agents (network s) = []
      \<or> Max (val ` snd ` set (agents (network s))) - Min (val ` snd ` set (agents (network s))) < epsilon
      \<or> real (length (filter (moved epsilon (previous_values s)) (agents (network s))))
           / real (length (agents (network s))) < 2 / 10)"
    by (cases "agents (network s) = []")
      (simp_all add: has_converged_def Let_def py_min_Min py_max_Max set_vs count_changed_filter
        del: py_min.simps py_max.simps)
  then show ?thesis
    by (simp add: moved_def)
qed

theorem has_converged_verdict_witness:
  "fst (has_converged 1
          \<lparr>network = \<lparr>agents = [(0, \<lparr>agent_id = 0, val = 10, neighbors = [1]\<rparr>),
                                  (1, \<lparr>agent_id = 1, val = 0, neighbors = [0]\<rparr>)]\<rparr>,
            step_size = 1 / 2, current_round = 1, previous_values = [(0, 10)]\<rparr>)
   \<and> (0::real) \<le> 1 \<and> map_of [(0::int, 10::real)] 1 = None
   \<and> \<not> moved 1 [(0, 10)] (1, \<lparr>agent_id = 1, val = 0, neighbors = [0]\<rparr>)"
  using has_converged_verdict [of 1
      "\<lparr>network = \<lparr>agents = [(0, \<lparr>agent_id = 0, val = 10, neighbors = [1]\<rparr>),
                               (1, \<lparr>agent_id = 1, val = 0, neighbors = [0]\<rparr>)]\<rparr>,
         step_size = 1 / 2, current_round = 1, previous_values = [(0, 10)]\<rparr>"
      "[(0, 10)]" 1 "\<lparr>agent_id = 1, val = 0, neighbors = [0]\<rparr>"]
  by (simp add: moved_def)

section \<open>The run loop\<close>

lemma round_wf:
  assumes "wf_network (network s)"
  shows "wf_network (network (snd (has_converged epsilon (snd (step s)))))"
  using step_wf [OF assms] by (simp add: has_converged_network)

lemma round_current_round:
  assumes "wf_network (network s)"
  shows "current_round (snd (has_converged epsilon (snd (step s)))) = current_round s + 1"
  by (simp add: has_converged_current_round step_current_round [OF assms])

lemma after_rounds_wf:
  "wf_network (network s) \<Longrightarrow> wf_network (network (after_rounds k epsilon s))"
  by (induction k arbitrary: s) (simp_all add: round_wf)

lemma after_rounds_current_round:
  "wf_network (network s) \<Longrightarrow>
     current_round (after_rounds k epsilon s) = current_round s + int k"
proof (induction k arbitrary: s)
  case 0
  then show ?case by simp
next
  case (Suc k)
  from Suc.IH [OF round_wf [OF Suc.prems]] show ?case
    by (simp add: round_current_round [OF Suc.prems])
qed

lemma after_rounds_step_ok:
  assumes "wf_network (network s)"
  shows "fst (step (after_rounds j epsilon s)) = Inr ()"
  by (simp add: step_sync [OF after_rounds_wf [OF assms]])

lemma round_verdict_1:
  "round_verdict 1 epsilon s = fst (has_converged epsilon (snd (step s)))"
  by (simp add: round_verdict_def)

lemma round_verdict_Suc:
  "1 \<le> j \<Longrightarrow>
     round_verdict (Suc j) epsilon s =
       round_verdict j epsilon (snd (has_converged epsilon (snd (step s))))"
  by (cases j) (simp_all add: round_verdict_def)

lemma rounds_done_le: "rounds_done n epsilon s \<le> n"
  by (induction n arbitrary: s) (auto simp: Suc_leI)

lemma rounds_done_pos: "1 \<le> n \<Longrightarrow> 1 \<le> rounds_done n epsilon s"
  by (cases n) simp_all

lemma run_loop_rounds_done:
  "wf_network (network s) \<Longrightarrow>
     run_loop n epsilon s = (Inr (), after_rounds (rounds_done n epsilon s) epsilon s)"
proof (induction n arbitrary: s)
  case 0
  then show ?case by simp
next
  case (Suc n)
  from Suc.IH [OF round_wf [OF Suc.prems]] show ?case
    by (simp only: run_loop_Suc [OF Suc.prems] rounds_done.simps split: if_splits) simp
qed

lemma rounds_done_not_before:
  "1 \<le> j \<Longrightarrow> j < rounds_done n epsilon s \<Longrightarrow> \<not> round_verdict j epsilon s"
proof (induction n arbitrary: s j)
  case 0
  then show ?case by simp
next
  case (Suc n)
  let ?s2 = "snd (has_converged epsilon (snd (step s)))"
  show ?case
  proof (cases "fst (has_converged epsilon (snd (step s)))")
    case True
    with Suc.prems show ?thesis by simp
  next
    case False
    show ?thesis
    proof (cases j)
      case 0
      with Suc.prems show ?thesis by simp
    next
      case (Suc i)
      show ?thesis
      proof (cases "i = 0")
        case True
        with Suc False show ?thesis by (simp add: round_verdict_def)
      next
        case nz: False
        then have i: "1 \<le> i" by simp
        from Suc.prems(2) False Suc have "i < rounds_done n epsilon ?s2" by simp
        from Suc.IH [OF i this] show ?thesis
          by (simp add: Suc round_verdict_Suc [OF i])
      qed
    qed
  qed
qed

lemma rounds_done_early:
  "rounds_done n epsilon s < n \<Longrightarrow> round_verdict (rounds_done n epsilon s) epsilon s"
proof (induction n arbitrary: s)
  case 0
  then show ?case by simp
next
  case (Suc n)
  let ?s2 = "snd (has_converged epsilon (snd (step s)))"
  show ?case
  proof (cases "fst (has_converged epsilon (snd (step s)))")
    case True
    then show ?thesis by (simp add: round_verdict_def)
  next
    case False
    with Suc.prems have lt: "rounds_done n epsilon ?s2 < n" by simp
    then have "1 \<le> n" by simp
    then have pos: "1 \<le> rounds_done n epsilon ?s2" by (rule rounds_done_pos)
    from Suc.IH [OF lt] False show ?thesis
      by (simp add: round_verdict_Suc [OF pos])
  qed
qed

lemma step_no_edges:
  assumes "wf_network (network s)"
    and "\<forall>(aid, A) \<in> set (agents (network s)). neighbors A = []"
  shows "step s = (Inr (), s\<lparr>current_round := current_round s + 1\<rparr>)"
proof -
  have "map (\<lambda>(aid, ag). (aid, ag\<lparr>val := spec_updated (step_size s) (agents (network s)) ag\<rparr>))
          (agents (network s)) = agents (network s)"
    using assms(2) by (intro map_idI) (auto simp: spec_updated_def)
  then show ?thesis
    by (simp add: step_sync [OF assms(1)])
qed

lemma has_converged_empty:
  "agents (network s) = [] \<Longrightarrow> has_converged epsilon s = (True, s)"
  by (simp add: has_converged_def)

lemma has_converged_single:
  "agents (network s) = [(aid, A)] \<Longrightarrow> 0 < epsilon \<Longrightarrow> has_converged epsilon s = (True, s)"
  by (simp add: has_converged_def)

text \<open>
  Claim C4. On a well-formed network \<open>run max_rounds epsilon\<close> first stores the current
  id-to-value mapping in \<open>previous_values\<close>, then executes some number \<open>k\<close> of rounds with
  \<open>k\<close> at most \<open>max_rounds\<close> (none when \<open>max_rounds\<close> is not positive): every \<open>step\<close> of
  these rounds returns normally, \<open>has_converged\<close> answered false at the end of every round
  before the last, and when fewer than \<open>max_rounds\<close> rounds ran, at least one ran and
  \<open>has_converged\<close> answered true at the end of the last. The final state is the state
  after these \<open>k\<close> rounds, its counter is the initial counter plus \<open>k\<close>, and this counter
  is returned: \<open>k\<close> itself when the counter started at 0.
\<close>

theorem run_rounds:
  assumes "wf_network (network s)"
  shows "\<exists>k. k \<le> nat max_rounds
           \<and> run max_rounds epsilon s =
               (Inr (current_round s + int k), after_rounds k epsilon (initialize_previous_values s))
           \<and> previous_values (initialize_previous_values s) = get_all_values (network s)
           \<and> network (initialize_previous_values s) = network s
           \<and> current_round (after_rounds k epsilon (initialize_previous_values s)) =
               current_round s + int k
           \<and> (\<forall>j. j < k \<longrightarrow>
                 fst (step (after_rounds j epsilon (initialize_previous_values s))) = Inr ())
           \<and> (\<forall>j. 1 \<le> j \<and> j < k \<longrightarrow> \<not> round_verdict j epsilon (initialize_previous_values s))
           \<and> (k < nat max_rounds \<longrightarrow>
                 1 \<le> k \<and> round_verdict k epsilon (initialize_previous_values s))
           \<and> (current_round s = 0 \<longrightarrow> fst (run max_rounds epsilon s) = Inr (int k))"
proof -
  let ?s0 = "initialize_previous_values s"
  let ?n = "nat max_rounds"
  let ?k = "rounds_done ?n epsilon ?s0"
  have net0: "network ?s0 = network s" and cr0: "current_round ?s0 = current_round s"
    and pv0: "previous_values ?s0 = get_all_values (network s)"
    by (simp_all add: initialize_previous_values_def get_all_values_def)
  from assms net0 have wf0: "wf_network (network ?s0)" by simp
  have cr: "current_round (after_rounds ?k epsilon ?s0) = current_round s + int ?k"
    using after_rounds_current_round [OF wf0, of ?k epsilon] cr0 by simp
  have r: "run max_rounds epsilon s = (Inr (current_round s + int ?k), after_rounds ?k epsilon ?s0)"
    by (simp add: run_def run_loop_rounds_done [OF wf0] cr)
  have early: "?k < ?n \<longrightarrow> 1 \<le> ?k \<and> round_verdict ?k epsilon ?s0"
    using rounds_done_early [of ?n epsilon ?s0] rounds_done_pos [of ?n epsilon ?s0]
    by auto
  have steps: "\<forall>j. j < ?k \<longrightarrow> fst (step (after_rounds j epsilon ?s0)) = Inr ()"
    using after_rounds_step_ok [OF wf0] by simp
  have before: "\<forall>j. 1 \<le> j \<and> j < ?k \<longrightarrow> \<not> round_verdict j epsilon ?s0"
    using rounds_done_not_before by blast
  have fresh: "current_round s = 0 \<longrightarrow> fst (run max_rounds epsilon s) = Inr (int ?k)"
    by (simp add: r)
  from rounds_done_le [of ?n epsilon ?s0] r pv0 net0 cr steps before early fresh
  show ?thesis by blast
qed

lemma run_two_agents:
  "fst (run 10 2
     \<lparr>network = \<lparr>agents = [(0, \<lparr>agent_id = 0, val = 10, neighbors = [1]\<rparr>),
                             (1, \<lparr>agent_id = 1, val = 0, neighbors = [0]\<rparr>)]\<rparr>,
       step_size = 1 / 2, current_round = 0, previous_values = []\<rparr>) = Inr 2"
  by (simp add: run_def initialize_previous_values_def eval_nat_numeral step_def
      has_converged_def Let_def update_value_def py_sum_def dict_get_def)

theorem run_rounds_witness:
  "wf_network \<lparr>agents = [(0, \<lparr>agent_id = 0, val = 10, neighbors = [1]\<rparr>),
                          (1, \<lparr>agent_id = 1, val = 0, neighbors = [0]\<rparr>)]\<rparr>
   \<and> run 10 2
         \<lparr>network = \<lparr>agents = [(0, \<lparr>agent_id = 0, val = 10, neighbors = [1]\<rparr>),
                                 (1, \<lparr>agent_id = 1, val = 0, neighbors = [0]\<rparr>)]\<rparr>,
           step_size = 1 / 2, current_round = 0, previous_values = []\<rparr> =
       (Inr 2,
        after_rounds 2 2
          (initialize_previous_values
             \<lparr>network = \<lparr>agents = [(0, \<lparr>agent_id = 0, val = 10, neighbors = [1]\<rparr>),
                                     (1, \<lparr>agent_id = 1, val = 0, neighbors = [0]\<rparr>)]\<rparr>,
               step_size = 1 / 2, current_round = 0, previous_values = []\<rparr>))
   \<and> round_verdict 2 2
         (initialize_previous_values
            \<lparr>network = \<lparr>agents = [(0, \<lparr>agent_id = 0, val = 10, neighbors = [1]\<rparr>),
                                    (1, \<lparr>agent_id = 1, val = 0, neighbors = [0]\<rparr>)]\<rparr>,
              step_size = 1 / 2, current_round = 0, previous_values = []\<rparr>)"
proof -
  let ?net = "\<lparr>agents = [(0, \<lparr>agent_id = 0, val = 10, neighbors = [1]\<rparr>),
                         (1, \<lparr>agent_id = 1, val = 0, neighbors = [0]\<rparr>)]\<rparr>"
  let ?s = "\<lparr>network = ?net, step_size = 1 / 2, current_round = 0, previous_values = []\<rparr>"
  let ?start = "initialize_previous_values ?s"
  have wf: "wf_network ?net"
    by (simp add: wf_network_def dict_mem_def)
  then have "wf_network (network ?s)" by simp
  from run_rounds [OF this, of 10 2]
  obtain k where r: "run 10 2 ?s = (Inr (current_round ?s + int k), after_rounds k 2 ?start)"
    and early: "k < nat 10 \<longrightarrow> 1 \<le> k \<and> round_verdict k 2 ?start"
    by blast
  from r run_two_agents have k: "k = 2" by simp
  with early have "round_verdict 2 2 ?start" by simp
  with wf r k show ?thesis by simp
qed

lemma one_round_two_agents:
  "after_rounds 1 2
     (initialize_previous_values
        \<lparr>network = \<lparr>agents = [(0, \<lparr>agent_id = 0, val = 10, neighbors = [1]\<rparr>),
                                (1, \<lparr>agent_id = 1, val = 0, neighbors = [0]\<rparr>)]\<rparr>,
          step_size = 1 / 2, current_round = 0, previous_values = []\<rparr>) =
   \<lparr>network = \<lparr>agents = [(0, \<lparr>agent_id = 0, val = 15 / 2, neighbors = [1]\<rparr>),
                           (1, \<lparr>agent_id = 1, val = 5 / 2, neighbors = [0]\<rparr>)]\<rparr>,
     step_size = 1 / 2, current_round = 1, previous_values = [(0, 15 / 2), (1, 5 / 2)]\<rparr>"
  by (simp add: initialize_previous_values_def step_def has_converged_def Let_def
      update_value_def py_sum_def dict_get_def)

text \<open>
  Claim C3, as amended. With \<open>max_rounds \<le> 0\<close> the loop body never runs: \<open>run\<close> only takes
  the snapshot and returns the counter unchanged. With \<open>max_rounds \<ge> 1\<close>, on a well-formed
  network, at least one round is executed: \<open>step\<close> is called on the state that holds the
  snapshot and returns normally, \<open>has_converged\<close> is evaluated on its result, the final
  state is the one reached from there after the remaining \<open>k - 1\<close> rounds, and its
  counter, which is returned, is the initial counter plus \<open>k\<close> with \<open>1 \<le> k \<le> max_rounds\<close>.
  On a network without agents, and on a network of a single agent without neighbors
  when \<open>epsilon > 0\<close>, exactly one round is executed: the final state is the snapshot
  state with the counter incremented once, so the network is as it was, and a
  simulation whose counter starts at 0 returns 1.
\<close>

theorem run_at_least_one_round:
  assumes "wf_network (network s)"
  shows "(max_rounds \<le> 0 \<longrightarrow>
            run max_rounds epsilon s = (Inr (current_round s), initialize_previous_values s))
         \<and> (1 \<le> max_rounds \<longrightarrow>
              (\<exists>k. 1 \<le> k \<and> k \<le> nat max_rounds
                 \<and> run max_rounds epsilon s =
                     (Inr (current_round s + int k),
                      after_rounds k epsilon (initialize_previous_values s))
                 \<and> fst (step (initialize_previous_values s)) = Inr ()
                 \<and> after_rounds k epsilon (initialize_previous_values s) =
                     after_rounds (k - 1) epsilon
                       (snd (has_converged epsilon (snd (step (initialize_previous_values s)))))
                 \<and> current_round (after_rounds k epsilon (initialize_previous_values s)) =
                     current_round s + int k))
         \<and> (1 \<le> max_rounds \<and>
              (agents (network s) = []
               \<or> 0 < epsilon \<and> (\<exists>aid A. agents (network s) = [(aid, A)] \<and> neighbors A = []))
             \<longrightarrow> run max_rounds epsilon s =
                   (Inr (current_round s + 1),
                    (initialize_previous_values s)\<lparr>current_round := current_round s + 1\<rparr>))"
proof -
  let ?init = "initialize_previous_values s"
  let ?n = "nat max_rounds"
  let ?k = "rounds_done ?n epsilon ?init"
  let ?s' = "after_rounds ?k epsilon ?init"
  have net0: "network ?init = network s" and cr0: "current_round ?init = current_round s"
    by (simp_all add: initialize_previous_values_def)
  from assms net0 have wf0: "wf_network (network ?init)" by simp
  have cr: "current_round ?s' = current_round s + int ?k"
    using after_rounds_current_round [OF wf0, of ?k epsilon] cr0 by simp
  have r: "run max_rounds epsilon s = (Inr (current_round s + int ?k), ?s')"
    by (simp add: run_def run_loop_rounds_done [OF wf0] cr)
  have none: "max_rounds \<le> 0 \<longrightarrow>
      run max_rounds epsilon s = (Inr (current_round s), initialize_previous_values s)"
    by (simp add: run_def cr0)
  have first: "fst (step ?init) = Inr ()"
    using after_rounds_step_ok [OF wf0, of 0 epsilon] by simp
  have pos: "1 \<le> ?k" if "1 \<le> max_rounds"
    using that by (intro rounds_done_pos) simp
  have unroll: "?s' = after_rounds (?k - 1) epsilon (snd (has_converged epsilon (snd (step ?init))))"
    if "1 \<le> max_rounds"
  proof -
    from pos [OF that] obtain j where "?k = Suc j"
      by (cases ?k) simp_all
    then show ?thesis by simp
  qed
  have some: "1 \<le> max_rounds \<longrightarrow>
      (\<exists>k. 1 \<le> k \<and> k \<le> nat max_rounds
         \<and> run max_rounds epsilon s = (Inr (current_round s + int k), after_rounds k epsilon ?init)
         \<and> fst (step ?init) = Inr ()
         \<and> after_rounds k epsilon ?init =
             after_rounds (k - 1) epsilon (snd (has_converged epsilon (snd (step ?init))))
         \<and> current_round (after_rounds k epsilon ?init) = current_round s + int k)"
    using pos rounds_done_le [of ?n epsilon ?init] r first unroll cr by blast
  have quiet: "run max_rounds epsilon s =
      (Inr (current_round s + 1), ?init\<lparr>current_round := current_round s + 1\<rparr>)"
    if one: "1 \<le> max_rounds"
      and edgeless: "\<forall>(aid, A) \<in> set (agents (network s)). neighbors A = []"
      and conv: "\<And>t. network t = network s \<Longrightarrow> has_converged epsilon t = (True, t)"
  proof -
    from one obtain m where n: "?n = Suc m"
      by (cases ?n) simp_all
    let ?s1 = "?init\<lparr>current_round := current_round ?init + 1\<rparr>"
    have st: "step ?init = (Inr (), ?s1)"
      using step_no_edges [OF wf0] edgeless net0 by simp
    have hc: "has_converged epsilon ?s1 = (True, ?s1)"
      using conv [of ?s1] net0 by simp
    from st hc have "?k = 1" and "?s' = ?s1"
      by (simp_all add: n)
    with r cr0 show ?thesis by simp
  qed
  have special: "1 \<le> max_rounds \<and>
      (agents (network s) = []
       \<or> 0 < epsilon \<and> (\<exists>aid A. agents (network s) = [(aid, A)] \<and> neighbors A = []))
     \<longrightarrow> run max_rounds epsilon s =
           (Inr (current_round s + 1), ?init\<lparr>current_round := current_round s + 1\<rparr>)"
  proof (intro impI, elim conjE disjE exE)
    assume "1 \<le> max_rounds" and "agents (network s) = []"
    then show "run max_rounds epsilon s =
           (Inr (current_round s + 1), ?init\<lparr>current_round := current_round s + 1\<rparr>)"
      by (intro quiet) (simp_all add: has_converged_empty)
  next
    fix aid A
    assume "1 \<le> max_rounds" and "0 < epsilon"
      and "agents (network s) = [(aid, A)]" and "neighbors A = []"
    then show "run max_rounds epsilon s =
           (Inr (current_round s + 1), ?init\<lparr>current_round := current_round s + 1\<rparr>)"
      by (intro quiet) (simp_all add: has_converged_single)
  qed
  from none some special show ?thesis
    by blast
qed

theorem run_at_least_one_round_witness:
  "wf_network Network_init \<and> (1::int) \<le> 1000
   \<and> run 1000 (1 / 1000)
        \<lparr>network = Network_init, step_size = 1 / 2, current_round = 0, previous_values = []\<rparr> =
       (Inr 1,
        \<lparr>network = Network_init, step_size = 1 / 2, current_round = 1, previous_values = []\<rparr>)
   \<and> wf_network \<lparr>agents = [(0, \<lparr>agent_id = 0, val = 42, neighbors = []\<rparr>)]\<rparr>
   \<and> (0::real) < 1 / 1000
   \<and> run 1000 (1 / 1000)
        \<lparr>network = \<lparr>agents = [(0, \<lparr>agent_id = 0, val = 42, neighbors = []\<rparr>)]\<rparr>,
          step_size = 1 / 2, current_round = 0, previous_values = []\<rparr> =
       (Inr 1,
        \<lparr>network = \<lparr>agents = [(0, \<lparr>agent_id = 0, val = 42, neighbors = []\<rparr>)]\<rparr>,
          step_size = 1 / 2, current_round = 1, previous_values = [(0, 42)]\<rparr>)
   \<and> wf_network \<lparr>agents = [(0, \<lparr>agent_id = 0, val = 10, neighbors = [1]\<rparr>),
                            (1, \<lparr>agent_id = 1, val = 0, neighbors = [0]\<rparr>)]\<rparr>
   \<and> (1::int) \<le> 1
   \<and> run 1 2
        \<lparr>network = \<lparr>agents = [(0, \<lparr>agent_id = 0, val = 10, neighbors = [1]\<rparr>),
                                (1, \<lparr>agent_id = 1, val = 0, neighbors = [0]\<rparr>)]\<rparr>,
          step_size = 1 / 2, current_round = 0, previous_values = []\<rparr> =
       (Inr 1,
        \<lparr>network = \<lparr>agents = [(0, \<lparr>agent_id = 0, val = 15 / 2, neighbors = [1]\<rparr>),
                                (1, \<lparr>agent_id = 1, val = 5 / 2, neighbors = [0]\<rparr>)]\<rparr>,
          step_size = 1 / 2, current_round = 1, previous_values = [(0, 15 / 2), (1, 5 / 2)]\<rparr>)
   \<and> (-1::int) \<le> 0
   \<and> run (-1) (1 / 1000)
        \<lparr>network = Network_init, step_size = 1 / 2, current_round = 0, previous_values = []\<rparr> =
       (Inr 0,
        \<lparr>network = Network_init, step_size = 1 / 2, current_round = 0, previous_values = []\<rparr>)"
proof -
  let ?e = "\<lparr>network = Network_init, step_size = 1 / 2, current_round = 0, previous_values = []\<rparr>"
  let ?n1 = "\<lparr>agents = [(0, \<lparr>agent_id = 0, val = 42, neighbors = []\<rparr>)]\<rparr>"
  let ?s1 = "\<lparr>network = ?n1, step_size = 1 / 2, current_round = 0, previous_values = []\<rparr>"
  let ?n2 = "\<lparr>agents = [(0, \<lparr>agent_id = 0, val = 10, neighbors = [1]\<rparr>),
                        (1, \<lparr>agent_id = 1, val = 0, neighbors = [0]\<rparr>)]\<rparr>"
  let ?s2 = "\<lparr>network = ?n2, step_size = 1 / 2, current_round = 0, previous_values = []\<rparr>"
  have wfe: "wf_network Network_init"
    by (simp add: wf_network_def Network_init_def)
  have wf1: "wf_network ?n1"
    by (simp add: wf_network_def)
  have wf2: "wf_network ?n2"
    by (simp add: wf_network_def dict_mem_def)
  from wfe have "wf_network (network ?e)" by simp
  from run_at_least_one_round [OF this, of 1000 "1 / 1000"]
  have a: "run 1000 (1 / 1000) ?e = (Inr 1, ?e\<lparr>current_round := 1\<rparr>)"
    by (simp add: Network_init_def initialize_previous_values_def)
  from wfe have "wf_network (network ?e)" by simp
  from run_at_least_one_round [OF this, of "-1" "1 / 1000"]
  have c: "run (-1) (1 / 1000) ?e = (Inr 0, ?e)"
    by (simp add: Network_init_def initialize_previous_values_def)
  from wf1 have "wf_network (network ?s1)" by simp
  from run_at_least_one_round [OF this, of 1000 "1 / 1000"]
  have b: "run 1000 (1 / 1000) ?s1 = (Inr 1, ?s1\<lparr>current_round := 1, previous_values := [(0, 42)]\<rparr>)"
    by (simp add: initialize_previous_values_def)
  from wf2 have "wf_network (network ?s2)" by simp
  from run_at_least_one_round [OF this, of 1 2]
  obtain k where k: "1 \<le> k" "k \<le> nat 1"
    and r: "run 1 2 ?s2 = (Inr (current_round ?s2 + int k),
                           after_rounds k 2 (initialize_previous_values ?s2))"
    by auto
  from k have "k = 1" by simp
  with r one_round_two_agents
  have d: "run 1 2 ?s2 =
       (Inr 1,
        \<lparr>network = \<lparr>agents = [(0, \<lparr>agent_id = 0, val = 15 / 2, neighbors = [1]\<rparr>),
                                (1, \<lparr>agent_id = 1, val = 5 / 2, neighbors = [0]\<rparr>)]\<rparr>,
          step_size = 1 / 2, current_round = 1, previous_values = [(0, 15 / 2), (1, 5 / 2)]\<rparr>)"
    by simp
  from wfe wf1 wf2 a b c d show ?thesis by simp
qed

text \<open>
  The claim as stated fails for \<open>max_rounds = 0\<close>, which the interface permits: on the
  empty network \<open>run 0\<close> executes no round and returns 0, not 1.
\<close>

theorem run_zero_rounds_counterexample:
  "ConsensusSimulation_init Network_init (1 / 2) =
     Inr \<lparr>network = Network_init, step_size = 1 / 2, current_round = 0, previous_values = []\<rparr>
   \<and> (0::int) \<le> 0 \<and> (0::real) < 1 / 1000
   \<and> fst (run 0 (1 / 1000)
            \<lparr>network = Network_init, step_size = 1 / 2, current_round = 0, previous_values = []\<rparr>)
       = Inr 0
   \<and> fst (run 0 (1 / 1000)
            \<lparr>network = Network_init, step_size = 1 / 2, current_round = 0, previous_values = []\<rparr>)
       \<noteq> Inr 1"
  by (simp add: ConsensusSimulation_init_def run_def initialize_previous_values_def Network_init_def)

end
